theory Spec2Isabelle
  imports Main "HOL-Library.Code_Target_Numeral"
begin

section \<open>Python primitives used by \<open>process_design.py\<close>\<close>

text \<open>
  The text handed to the parser is a Python \<open>str\<close>, a sequence of Unicode code points,
  and is modelled as a list of code point numbers (\<open>ustring\<close>); \<open>ustr\<close> turns a literal
  into such a list. The format selector, the bit patterns and every text the program
  produces stay of type \<open>string\<close>: the program only compares them with ASCII literals
  or builds them from ASCII characters.

  Three facts about the interpreter enter the model, as they are in CPython 3.11 with
  its Unicode 14.0 database: the code points for which \<open>str.isspace\<close> holds, the
  decimal digits (general category Nd, which come in runs of ten with the values 0 to
  9) known to the class \<open>\d\<close> and to \<open>int\<close>, and the default limit of 4300 digits on the
  texts that \<open>int\<close> converts. Python integers are unbounded and are modelled by \<open>int\<close>.
\<close>

type_synonym ustring = "nat list"

definition ustr :: "string \<Rightarrow> ustring" where
  "ustr s = map of_char s"

definition py_isspace :: "nat \<Rightarrow> bool" where
  "py_isspace c = (c \<in> set [0x09, 0x0A, 0x0B, 0x0C, 0x0D, 0x1C, 0x1D, 0x1E, 0x1F, 0x20,
     0x85, 0xA0, 0x1680, 0x2000, 0x2001, 0x2002, 0x2003, 0x2004, 0x2005, 0x2006, 0x2007,
     0x2008, 0x2009, 0x200A, 0x2028, 0x2029, 0x202F, 0x205F, 0x3000])"

text \<open>\<open>s.strip()\<close>: drop the whitespace at both ends.\<close>

definition py_strip :: "ustring \<Rightarrow> ustring" where
  "py_strip s = rev (dropWhile py_isspace (rev (dropWhile py_isspace s)))"

text \<open>The code points of the digit zero of each run of ten decimal digits.\<close>

definition nd_starts :: "nat list" where
  "nd_starts = [0x30, 0x660, 0x6F0, 0x7C0, 0x966, 0x9E6, 0xA66, 0xAE6, 0xB66, 0xBE6, 0xC66,
     0xCE6, 0xD66, 0xDE6, 0xE50, 0xED0, 0xF20, 0x1040, 0x1090, 0x17E0, 0x1810, 0x1946,
     0x19D0, 0x1A80, 0x1A90, 0x1B50, 0x1BB0, 0x1C40, 0x1C50, 0xA620, 0xA8D0, 0xA900,
     0xA9D0, 0xA9F0, 0xAA50, 0xABF0, 0xFF10, 0x104A0, 0x10D30, 0x11066, 0x110F0, 0x11136,
     0x111D0, 0x112F0, 0x11450, 0x114D0, 0x11650, 0x116C0, 0x11730, 0x118E0, 0x11950,
     0x11C50, 0x11D50, 0x11DA0, 0x16A60, 0x16AC0, 0x16B50, 0x1D7CE, 0x1D7D8, 0x1D7E2,
     0x1D7EC, 0x1D7F6, 0x1E140, 0x1E2F0, 0x1E950, 0x1FBF0]"

text \<open>The value of a decimal digit; \<open>None\<close> for every other code point.\<close>

definition decimal_value :: "nat \<Rightarrow> nat option" where
  "decimal_value c =
     (case find (\<lambda>z. z \<le> c \<and> c < z + 10) nd_starts of
        None \<Rightarrow> None
      | Some z \<Rightarrow> Some (c - z))"

definition is_digit :: "nat \<Rightarrow> bool" where
  "is_digit c = (decimal_value c \<noteq> None)"

definition digit_val :: "nat \<Rightarrow> nat" where
  "digit_val c = (case decimal_value c of None \<Rightarrow> 0 | Some d \<Rightarrow> d)"

text \<open>The value of a sequence of decimal digits, most significant first.\<close>

definition dec_val :: "ustring \<Rightarrow> nat" where
  "dec_val ds = foldl (\<lambda>a c. 10 * a + digit_val c) 0 ds"

text \<open>
  \<open>_DEC_PATTERN.match(s)\<close> for the pattern \<open>^[+-]?\d+$\<close>: an optional sign (code
  points 43 and 45), the longest run of digits, which must not be empty, and then
  the end of the text. Without the MULTILINE flag \<open>$\<close> also matches just before a line
  feed (code point 10) that ends the text.
\<close>

definition DEC_PATTERN_match :: "ustring \<Rightarrow> bool" where
  "DEC_PATTERN_match s =
     (let r = (case s of [] \<Rightarrow> [] | c # t \<Rightarrow> if c = 43 \<or> c = 45 then t else s);
          ds = takeWhile is_digit r;
          rest = dropWhile is_digit r
      in ds \<noteq> [] \<and> (rest = [] \<or> rest = [10]))"

text \<open>
  The digits of a base 10 literal as \<open>int\<close> accepts them: digits, with single underscores
  (code point 95) allowed between two digits.
\<close>

fun int_body_ok :: "ustring \<Rightarrow> bool" where
  "int_body_ok [] = False"
| "int_body_ok [c] = is_digit c"
| "int_body_ok (c # d # cs) =
     (is_digit c \<and> (if d = 95 then int_body_ok cs else int_body_ok (d # cs)))"

text \<open>
  The whitespace that \<open>int\<close> skips at both ends: the six ASCII blanks, and the
  whitespace beyond ASCII, which \<open>int\<close> first replaces by a blank. The four separators
  28 to 31 are whitespace for \<open>strip\<close> but not for \<open>int\<close>.
\<close>

definition int_space :: "nat \<Rightarrow> bool" where
  "int_space c = (c \<in> set [9, 10, 11, 12, 13, 32] \<or> (127 \<le> c \<and> py_isspace c))"

definition int_max_str_digits :: nat where
  "int_max_str_digits = 4300"

datatype int_error = Invalid_literal | Exceeds_max_str_digits nat

text \<open>
  \<open>int(s, 10)\<close>: leading whitespace is skipped, then an optional sign, then the run of
  digits and underscores is scanned. A malformed run is an invalid literal; a run of
  more digits than the limit is refused next, the number of digits being reported;
  anything but whitespace after the run is an invalid literal again.
\<close>

definition py_int_base10 :: "ustring \<Rightarrow> int_error + int" where
  "py_int_base10 s =
     (let t = dropWhile int_space s;
          neg = (case t of [] \<Rightarrow> False | c # _ \<Rightarrow> c = 45);
          body = (case t of [] \<Rightarrow> [] | c # r \<Rightarrow> if c = 43 \<or> c = 45 then r else t);
          run = takeWhile (\<lambda>c. is_digit c \<or> c = 95) body;
          rest = dropWhile int_space (dropWhile (\<lambda>c. is_digit c \<or> c = 95) body);
          ds = filter is_digit run
      in if \<not> int_body_ok run then Inl Invalid_literal
         else if length ds > int_max_str_digits then Inl (Exceeds_max_str_digits (length ds))
         else if rest \<noteq> [] then Inl Invalid_literal
         else Inr (if neg then - int (dec_val ds) else int (dec_val ds)))"

text \<open>\<open>int(b, 2)\<close> on a text of binary digits: the positional value, most significant first.\<close>

definition py_int_base2 :: "string \<Rightarrow> int" where
  "py_int_base2 b = foldl (\<lambda>a c. 2 * a + (if c = CHR ''1'' then 1 else 0)) 0 b"

text \<open>The digits of a natural number in base 2, 16 (upper case) and 10, without padding.\<close>

fun bin_digits :: "nat \<Rightarrow> string" where
  "bin_digits n =
     (if n < 2 then [''01'' ! n] else bin_digits (n div 2) @ [''01'' ! (n mod 2)])"

fun hex_digits :: "nat \<Rightarrow> string" where
  "hex_digits n =
     (if n < 16 then [''0123456789ABCDEF'' ! n]
      else hex_digits (n div 16) @ [''0123456789ABCDEF'' ! (n mod 16)])"

fun dec_digits :: "nat \<Rightarrow> string" where
  "dec_digits n =
     (if n < 10 then [''0123456789'' ! n]
      else dec_digits (n div 10) @ [''0123456789'' ! (n mod 10)])"

declare bin_digits.simps [simp del] hex_digits.simps [simp del] dec_digits.simps [simp del]

text \<open>Zero padding on the left up to a width; a longer text is left as it is.\<close>

definition zero_pad :: "nat \<Rightarrow> string \<Rightarrow> string" where
  "zero_pad w ds = replicate (w - length ds) (CHR ''0'') @ ds"

text \<open>
  \<open>format(u, "032b")\<close> and \<open>format(u, "08X")\<close>: the zero flag pads between the sign and
  the digits, so a negative number keeps its \<open>-\<close> in front and the sign counts towards
  the width.
\<close>

definition format_032b :: "int \<Rightarrow> string" where
  "format_032b u =
     (if u < 0 then CHR ''-'' # zero_pad 31 (bin_digits (nat (- u)))
      else zero_pad 32 (bin_digits (nat u)))"

definition format_08X :: "int \<Rightarrow> string" where
  "format_08X u =
     (if u < 0 then CHR ''-'' # zero_pad 7 (hex_digits (nat (- u)))
      else zero_pad 8 (hex_digits (nat u)))"

text \<open>\<open>str(x)\<close> for an integer.\<close>

definition py_str :: "int \<Rightarrow> string" where
  "py_str x = (if x < 0 then CHR ''-'' # dec_digits (nat (- x)) else dec_digits (nat x))"

section \<open>The program\<close>

definition MIN_INT32 :: int where
  "MIN_INT32 = - (2 ^ 31)"

definition MAX_INT32 :: int where
  "MAX_INT32 = 2 ^ 31 - 1"

definition MOD32 :: int where
  "MOD32 = 2 ^ 32"

text \<open>
  Every failure of the program is a \<open>ValueError\<close>; the constructors tell the raise
  sites apart by their message. The first three are raised by the parser (the
  specification's InvalidFormat), \<open>Bin32_not_32_binary_chars\<close> by the decoder and the
  hexadecimal renderer (MalformedBitPattern), \<open>Unknown_format_selector\<close> by \<open>convert\<close>
  (UnknownFormatSelector). \<open>Int_ValueError\<close> is the error of \<open>int\<close> itself, which
  passes through the parser unchanged.
\<close>

datatype error =
    Missing_input_value
  | Empty_input_value
  | Invalid_decimal_integer ustring
  | Int_ValueError int_error
  | Bin32_not_32_binary_chars
  | Unknown_format_selector string

text \<open>The argument is \<open>None\<close> when the caller passes Python's \<open>None\<close>.\<close>

definition parse_decimal_signed :: "ustring option \<Rightarrow> error + int" where
  "parse_decimal_signed so =
     (case so of
        None \<Rightarrow> Inl Missing_input_value
      | Some s0 \<Rightarrow>
          (let s = py_strip s0
           in if s = [] then Inl Empty_input_value
              else if \<not> DEC_PATTERN_match s then Inl (Invalid_decimal_integer s)
              else (case py_int_base10 s of
                      Inl e \<Rightarrow> Inl (Int_ValueError e)
                    | Inr v \<Rightarrow> Inr v)))"

definition detect_overflow :: "int \<Rightarrow> int" where
  "detect_overflow x = (if x < MIN_INT32 \<or> x > MAX_INT32 then 1 else 0)"

definition saturate_int32 :: "int \<Rightarrow> int \<times> int" where
  "saturate_int32 x =
     (if x > MAX_INT32 then (MAX_INT32, 1)
      else if x < MIN_INT32 then (MIN_INT32, 1)
      else (x, 0))"

definition int32_to_bin32 :: "int \<Rightarrow> string" where
  "int32_to_bin32 x_sat =
     (let u = (if x_sat \<ge> 0 then x_sat else MOD32 + x_sat)
      in format_032b u)"

text \<open>The guard shared by the renderer and the decoder.\<close>

definition bin32_malformed :: "string \<Rightarrow> bool" where
  "bin32_malformed b = (length b \<noteq> 32 \<or> list_ex (\<lambda>c. c \<notin> set ''01'') b)"

definition bin32_to_hex8 :: "string \<Rightarrow> bool \<Rightarrow> error + string" where
  "bin32_to_hex8 b prefix_0x =
     (if bin32_malformed b then Inl Bin32_not_32_binary_chars
      else (let u = py_int_base2 b;
                hx = format_08X u
            in Inr (if prefix_0x then ''0x'' @ hx else hx)))"

definition bin32_to_int32 :: "string \<Rightarrow> error + int" where
  "bin32_to_int32 b =
     (if bin32_malformed b then Inl Bin32_not_32_binary_chars
      else (let u = py_int_base2 b
            in Inr (if b ! 0 = CHR ''0'' then u else u - MOD32)))"

record Result =
  value_out :: string
  overflow :: int
  saturated :: int
  x_input :: int
  x_sat :: int
  bin32 :: string
  hex8 :: string

text \<open>
  \<open>convert\<close> runs the stages in the order of the source: parse, classify, saturate,
  encode, render, and only then look at the format selector. The selector is a
  Python \<open>str\<close> at run time and is only compared with three ASCII literals, so it is
  a \<open>string\<close> here.
\<close>

definition convert :: "ustring option \<Rightarrow> string \<Rightarrow> bool \<Rightarrow> error + Result" where
  "convert x_str fmt hex_prefix =
     (case parse_decimal_signed x_str of
        Inl e \<Rightarrow> Inl e
      | Inr x \<Rightarrow>
          (let ov = detect_overflow x;
               (xs, sat) = saturate_int32 x;
               b32 = int32_to_bin32 xs
           in case bin32_to_hex8 b32 hex_prefix of
                Inl e \<Rightarrow> Inl e
              | Inr h8 \<Rightarrow>
                  (if fmt = ''DEC'' then
                     Inr \<lparr>value_out = py_str xs, overflow = ov, saturated = sat,
                          x_input = x, x_sat = xs, bin32 = b32, hex8 = h8\<rparr>
                   else if fmt = ''BIN'' then
                     Inr \<lparr>value_out = b32, overflow = ov, saturated = sat,
                          x_input = x, x_sat = xs, bin32 = b32, hex8 = h8\<rparr>
                   else if fmt = ''HEX'' then
                     Inr \<lparr>value_out = h8, overflow = ov, saturated = sat,
                          x_input = x, x_sat = xs, bin32 = b32, hex8 = h8\<rparr>
                   else Inl (Unknown_format_selector fmt))))"

section \<open>Reading a rendering back\<close>

text \<open>
  The value of a text of upper case hexadecimal digits, most significant first. The
  program never reads hexadecimal; these two functions say what a hexadecimal
  rendering denotes.
\<close>

definition hex_digit_val :: "char \<Rightarrow> nat" where
  "hex_digit_val c = (if of_char c \<le> (57::nat) then of_char c - 48 else of_char c - 55)"

definition hex_val :: "string \<Rightarrow> nat" where
  "hex_val h = foldl (\<lambda>a c. 16 * a + hex_digit_val c) 0 h"

section \<open>Evaluation on concrete inputs\<close>

lemma replicate_numeral: "replicate (numeral k) x = x # replicate (pred_numeral k) x"
  by (simp add: numeral_eq_Suc)

text \<open>
  The tables of whitespace and digits are unfolded at numerals only, so that the
  simplifier looks a code point up once it is known and leaves the predicates alone
  while it is not.
\<close>

lemma py_isspace_numeral:
  "py_isspace (numeral k) = (numeral k \<in> set [0x09, 0x0A, 0x0B, 0x0C, 0x0D, 0x1C, 0x1D,
     0x1E, 0x1F, 0x20, 0x85, 0xA0, 0x1680, 0x2000, 0x2001, 0x2002, 0x2003, 0x2004, 0x2005,
     0x2006, 0x2007, 0x2008, 0x2009, 0x200A, 0x2028, 0x2029, 0x202F, 0x205F, 0x3000 :: nat])"
  by (simp only: py_isspace_def)

lemma int_space_numeral:
  "int_space (numeral k) =
     (numeral k \<in> set [9, 10, 11, 12, 13, 32 :: nat]
      \<or> ((127::nat) \<le> numeral k \<and> py_isspace (numeral k)))"
  by (simp only: int_space_def)

lemma is_digit_numeral:
  "is_digit (numeral k) =
     (find (\<lambda>z. z \<le> numeral k \<and> numeral k < z + 10) nd_starts \<noteq> None)"
  by (simp add: is_digit_def decimal_value_def split: option.splits)

lemma digit_val_numeral:
  "digit_val (numeral k) =
     (case find (\<lambda>z. z \<le> numeral k \<and> numeral k < z + 10) nd_starts of
        None \<Rightarrow> 0
      | Some z \<Rightarrow> numeral k - z)"
  by (simp add: digit_val_def decimal_value_def split: option.splits)

lemmas eval_defs =
  convert_def parse_decimal_signed_def py_strip_def py_isspace_numeral ustr_def
  nd_starts_def int_space_numeral int_max_str_digits_def
  DEC_PATTERN_match_def is_digit_numeral py_int_base10_def dec_val_def digit_val_numeral
  detect_overflow_def saturate_int32_def MIN_INT32_def MAX_INT32_def MOD32_def
  int32_to_bin32_def format_032b_def zero_pad_def bin_digits.simps
  bin32_to_hex8_def bin32_to_int32_def bin32_malformed_def py_int_base2_def
  format_08X_def hex_digits.simps py_str_def dec_digits.simps
  hex_val_def hex_digit_val_def replicate_numeral

section \<open>Binary digit texts\<close>

lemma bin32_malformed_iff:
  "bin32_malformed b \<longleftrightarrow> \<not> (length b = 32 \<and> set b \<subseteq> {CHR ''0'', CHR ''1''})"
  by (auto simp: bin32_malformed_def list_ex_iff)

lemma py_int_base2_Nil: "py_int_base2 [] = 0"
  by (simp add: py_int_base2_def)

lemma py_int_base2_snoc:
  "py_int_base2 (xs @ [c]) = 2 * py_int_base2 xs + (if c = CHR ''1'' then 1 else 0)"
  by (simp add: py_int_base2_def)

lemma py_int_base2_nonneg: "0 \<le> py_int_base2 b"
  by (induction b rule: rev_induct) (simp_all add: py_int_base2_Nil py_int_base2_snoc)

lemma py_int_base2_Cons:
  "py_int_base2 (c # t) = (if c = CHR ''1'' then 1 else 0) * 2 ^ length t + py_int_base2 t"
  by (induction t rule: rev_induct)
     (simp_all add: py_int_base2_Nil py_int_base2_snoc [of "c # xs" for xs, simplified] py_int_base2_def)

lemma py_int_base2_less: "py_int_base2 b < 2 ^ length b"
proof (induction b)
  case Nil
  show ?case by (simp add: py_int_base2_Nil)
next
  case (Cons a b)
  define p :: int where "p = 2 ^ length b"
  have "0 < p" by (simp add: p_def)
  moreover from Cons have "py_int_base2 b < p" by (simp add: p_def)
  ultimately have "(if a = CHR ''1'' then 1 else 0) * p + py_int_base2 b < 2 * p"
    by auto
  then show ?case by (simp add: py_int_base2_Cons p_def)
qed

lemma py_int_base2_replicate0: "py_int_base2 (replicate m (CHR ''0'') @ xs) = py_int_base2 xs"
  by (induction m) (simp_all add: py_int_base2_Cons)

lemma bit_char_cases: "''01'' ! (n mod 2) = (if n mod 2 = 1 then CHR ''1'' else CHR ''0'')"
  by (cases "n mod 2 = 0") auto

lemma set_bin_digits: "set (bin_digits n) \<subseteq> {CHR ''0'', CHR ''1''}"
proof (induction n rule: bin_digits.induct)
  case (1 n)
  show ?case
  proof (cases "n < 2")
    case True
    then have "n = 0 \<or> n = 1" by arith
    then show ?thesis by (auto simp: bin_digits.simps [of n])
  next
    case False
    with 1 show ?thesis
      by (auto simp: bin_digits.simps [of n] bit_char_cases)
  qed
qed

lemma py_int_base2_bin_digits: "py_int_base2 (bin_digits n) = int n"
proof (induction n rule: bin_digits.induct)
  case (1 n)
  show ?case
  proof (cases "n < 2")
    case True
    then have "n = 0 \<or> n = 1" by arith
    then show ?thesis by (auto simp: bin_digits.simps [of n] py_int_base2_def)
  next
    case False
    with 1 have "py_int_base2 (bin_digits (n div 2)) = int (n div 2)" by simp
    with False show ?thesis
      by (simp add: bin_digits.simps [of n] py_int_base2_snoc bit_char_cases) presburger
  qed
qed

lemma bin_digits_nonempty: "bin_digits n \<noteq> []"
  by (simp add: bin_digits.simps [of n])

lemma length_bin_digits: "n < 2 ^ k \<Longrightarrow> 0 < k \<Longrightarrow> length (bin_digits n) \<le> k"
proof (induction n arbitrary: k rule: bin_digits.induct)
  case (1 n)
  show ?case
  proof (cases "n < 2")
    case True
    with 1(3) show ?thesis by (simp add: bin_digits.simps [of n])
  next
    case False
    from False 1(2) have "k \<noteq> 1" by auto
    with 1(3) obtain j where k: "k = Suc j" and j: "0 < j"
      by (cases k) auto
    from 1(2) k have "n div 2 < 2 ^ j" by simp
    with 1(1) False j have "length (bin_digits (n div 2)) \<le> j" by simp
    with False k show ?thesis by (simp add: bin_digits.simps [of n])
  qed
qed

lemma length_zero_pad: "length (zero_pad w ds) = max w (length ds)"
  by (simp add: zero_pad_def)

lemma set_zero_pad: "set (zero_pad w ds) \<subseteq> insert (CHR ''0'') (set ds)"
  by (auto simp: zero_pad_def)

lemma py_int_base2_zero_pad: "py_int_base2 (zero_pad w ds) = py_int_base2 ds"
  by (simp add: zero_pad_def py_int_base2_replicate0)

lemma bin_digits_0: "bin_digits 0 = ''0''"
  by (simp add: bin_digits.simps [of 0])

lemma bin_digits_1: "bin_digits (Suc 0) = ''1''"
  by (simp add: bin_digits.simps [of "Suc 0"])

lemma bits_zero_val:
  "set b \<subseteq> {CHR ''0'', CHR ''1''} \<Longrightarrow> py_int_base2 b = 0 \<Longrightarrow> b = replicate (length b) (CHR ''0'')"
proof (induction b)
  case Nil
  show ?case by simp
next
  case (Cons a b)
  have nn: "0 \<le> py_int_base2 b" by (rule py_int_base2_nonneg)
  have pos: "(0::int) < 2 ^ length b" by simp
  from Cons.prems(2) have e: "(if a = CHR ''1'' then 1 else 0) * 2 ^ length b + py_int_base2 b = 0"
    by (simp add: py_int_base2_Cons)
  have a: "a = CHR ''0''"
  proof (rule ccontr)
    assume "a \<noteq> CHR ''0''"
    with Cons.prems(1) have "a = CHR ''1''" by auto
    with e nn pos show False by auto
  qed
  with e have "py_int_base2 b = 0" by simp
  with Cons a show ?case by simp
qed

lemma zero_pad_bin_digits_inverse:
  "set b \<subseteq> {CHR ''0'', CHR ''1''} \<Longrightarrow> b \<noteq> [] \<Longrightarrow>
     zero_pad (length b) (bin_digits (nat (py_int_base2 b))) = b"
proof (induction b rule: rev_induct)
  case Nil
  then show ?case by simp
next
  case (snoc c xs)
  let ?m = "nat (py_int_base2 xs)"
  let ?d = "if c = CHR ''1'' then 1 else 0 :: nat"
  have nn: "0 \<le> py_int_base2 xs" by (rule py_int_base2_nonneg)
  from snoc.prems have c: "c = CHR ''0'' \<or> c = CHR ''1''" by auto
  have n: "nat (py_int_base2 (xs @ [c])) = 2 * ?m + ?d"
    using nn by (simp add: py_int_base2_snoc nat_add_distrib nat_mult_distrib)
  show ?case
  proof (cases "?m = 0")
    case True
    with nn have "py_int_base2 xs = 0" by simp
    with snoc.prems have xs: "xs = replicate (length xs) (CHR ''0'')"
      by (intro bits_zero_val) auto
    from True n c have "bin_digits (nat (py_int_base2 (xs @ [c]))) = [c]"
      by (auto simp: bin_digits_0 bin_digits_1)
    then have "zero_pad (length (xs @ [c])) (bin_digits (nat (py_int_base2 (xs @ [c]))))
        = replicate (length xs) (CHR ''0'') @ [c]"
      by (simp add: zero_pad_def)
    with xs show ?thesis by simp
  next
    case False
    then have "xs \<noteq> []" by (auto simp: py_int_base2_Nil)
    with snoc have ih: "zero_pad (length xs) (bin_digits ?m) = xs" by simp
    from False have ge: "\<not> 2 * ?m + ?d < 2" by simp
    have "(2 * ?m + ?d) div 2 = ?m" by simp
    moreover have "''01'' ! ((2 * ?m + ?d) mod 2) = c" using c by auto
    ultimately have bd: "bin_digits (2 * ?m + ?d) = bin_digits ?m @ [c]"
      using ge by (simp add: bin_digits.simps [of "2 * ?m + ?d"])
    have "zero_pad (Suc (length xs)) (bin_digits ?m @ [c]) = zero_pad (length xs) (bin_digits ?m) @ [c]"
      by (simp add: zero_pad_def)
    with ih bd n show ?thesis by simp
  qed
qed

section \<open>The stages of \<open>convert\<close>\<close>

lemma convert_Inr_fields:
  assumes "convert x fmt p = Inr r"
  shows "\<exists>v. parse_decimal_signed x = Inr v \<and> x_input r = v
           \<and> overflow r = detect_overflow v
           \<and> x_sat r = fst (saturate_int32 v)
           \<and> saturated r = snd (saturate_int32 v)
           \<and> bin32 r = int32_to_bin32 (fst (saturate_int32 v))
           \<and> bin32_to_hex8 (bin32 r) p = Inr (hex8 r)
           \<and> (fmt = ''DEC'' \<and> value_out r = py_str (x_sat r)
              \<or> fmt = ''BIN'' \<and> value_out r = bin32 r
              \<or> fmt = ''HEX'' \<and> value_out r = hex8 r)"
  using assms unfolding convert_def
  by (auto simp: Let_def split: sum.splits prod.splits if_splits)

lemma saturate_int32_range:
  "MIN_INT32 \<le> fst (saturate_int32 v) \<and> fst (saturate_int32 v) \<le> MAX_INT32"
  by (simp add: saturate_int32_def MIN_INT32_def MAX_INT32_def)

lemma convert_max_plus_1:
  "convert (Some (ustr ''2147483648'')) ''DEC'' False =
     Inr \<lparr>value_out = ''2147483647'', overflow = 1, saturated = 1, x_input = 2147483648,
          x_sat = 2147483647, bin32 = ''01111111111111111111111111111111'',
          hex8 = ''7FFFFFFF''\<rparr>"
  by (simp add: eval_defs)

lemma convert_minus_123:
  "convert (Some (ustr ''-123'')) ''HEX'' True =
     Inr \<lparr>value_out = ''0xFFFFFF85'', overflow = 0, saturated = 0, x_input = - 123,
          x_sat = - 123, bin32 = ''11111111111111111111111110000101'',
          hex8 = ''0xFFFFFF85''\<rparr>"
  by (simp add: eval_defs)

section \<open>Encoder and decoder\<close>

lemma format_032b_wf:
  assumes "0 \<le> u" "u < 2 ^ 32"
  shows "length (format_032b u) = 32"
    and "set (format_032b u) \<subseteq> {CHR ''0'', CHR ''1''}"
    and "py_int_base2 (format_032b u) = u"
proof -
  from assms have f: "format_032b u = zero_pad 32 (bin_digits (nat u))"
    by (simp add: format_032b_def)
  from assms have "nat u < 2 ^ 32" by (simp add: nat_less_iff)
  then have "length (bin_digits (nat u)) \<le> 32" by (rule length_bin_digits) simp
  then show "length (format_032b u) = 32" by (simp add: f length_zero_pad)
  show "set (format_032b u) \<subseteq> {CHR ''0'', CHR ''1''}"
    using set_zero_pad [of 32 "bin_digits (nat u)"] set_bin_digits [of "nat u"]
    by (auto simp: f)
  show "py_int_base2 (format_032b u) = u"
    using assms by (simp add: f py_int_base2_zero_pad py_int_base2_bin_digits)
qed

lemma int32_to_bin32_unsigned:
  assumes "MIN_INT32 \<le> v" "v \<le> MAX_INT32"
  shows "int32_to_bin32 v = format_032b (if 0 \<le> v then v else v + 2 ^ 32)"
    and "0 \<le> (if 0 \<le> v then v else v + 2 ^ 32)"
    and "(if 0 \<le> v then v else v + 2 ^ 32) < 2 ^ 32"
  using assms
  by (auto simp: int32_to_bin32_def MOD32_def MIN_INT32_def MAX_INT32_def add.commute)

lemma int32_to_bin32_wf:
  assumes "MIN_INT32 \<le> v" "v \<le> MAX_INT32"
  shows "length (int32_to_bin32 v) = 32"
    and "set (int32_to_bin32 v) \<subseteq> {CHR ''0'', CHR ''1''}"
    and "py_int_base2 (int32_to_bin32 v) = (if 0 \<le> v then v else v + 2 ^ 32)"
  using int32_to_bin32_unsigned [OF assms]
    format_032b_wf [of "if 0 \<le> v then v else v + 2 ^ 32"]
  by simp_all

lemma sign_bit:
  assumes "length b = 32" "set b \<subseteq> {CHR ''0'', CHR ''1''}"
  shows "b ! 0 = CHR ''0'' \<longleftrightarrow> py_int_base2 b < 2 ^ 31"
proof -
  from assms(1) obtain c t where b: "b = c # t" and t: "length t = 31"
    by (cases b) auto
  have lt: "py_int_base2 t < 2 ^ 31" using py_int_base2_less [of t] t by simp
  have nn: "0 \<le> py_int_base2 t" by (rule py_int_base2_nonneg)
  from assms(2) b have "c = CHR ''0'' \<or> c = CHR ''1''" by auto
  then show ?thesis using lt nn by (auto simp: b py_int_base2_Cons t)
qed

lemma bin32_to_int32_wf:
  assumes "length b = 32" "set b \<subseteq> {CHR ''0'', CHR ''1''}"
  shows "bin32_to_int32 b =
     Inr (if py_int_base2 b < 2 ^ 31 then py_int_base2 b else py_int_base2 b - 2 ^ 32)"
  using assms sign_bit [OF assms]
  by (simp add: bin32_to_int32_def bin32_malformed_iff MOD32_def)

lemma format_032b_inverse:
  assumes "length b = 32" "set b \<subseteq> {CHR ''0'', CHR ''1''}"
  shows "format_032b (py_int_base2 b) = b"
proof -
  from assms(1) have "b \<noteq> []" by auto
  with assms show ?thesis
    using zero_pad_bin_digits_inverse [of b] py_int_base2_nonneg [of b]
    by (simp add: format_032b_def)
qed

lemma decode_encode:
  assumes "MIN_INT32 \<le> v" "v \<le> MAX_INT32"
  shows "bin32_to_int32 (int32_to_bin32 v) = Inr v"
  using assms int32_to_bin32_wf [OF assms]
  by (simp add: bin32_to_int32_wf MIN_INT32_def MAX_INT32_def)

lemma decode_range:
  assumes "length b = 32" "set b \<subseteq> {CHR ''0'', CHR ''1''}"
  shows "\<exists>w. bin32_to_int32 b = Inr w \<and> MIN_INT32 \<le> w \<and> w \<le> MAX_INT32"
  using py_int_base2_nonneg [of b] py_int_base2_less [of b] assms
  by (simp add: bin32_to_int32_wf MIN_INT32_def MAX_INT32_def)

lemma encode_decode:
  assumes "length b = 32" "set b \<subseteq> {CHR ''0'', CHR ''1''}"
  shows "\<exists>w. bin32_to_int32 b = Inr w \<and> int32_to_bin32 w = b"
proof -
  let ?u = "py_int_base2 b"
  have nn: "0 \<le> ?u" by (rule py_int_base2_nonneg)
  have lt: "?u < 2 ^ 32" using py_int_base2_less [of b] assms(1) by simp
  have inv: "format_032b ?u = b" by (rule format_032b_inverse [OF assms])
  show ?thesis
  proof (cases "?u < 2 ^ 31")
    case True
    with nn inv show ?thesis
      by (simp add: bin32_to_int32_wf [OF assms] int32_to_bin32_def)
  next
    case False
    with lt inv show ?thesis
      by (simp add: bin32_to_int32_wf [OF assms] int32_to_bin32_def MOD32_def)
  qed
qed

section \<open>Hexadecimal digit texts\<close>

lemma less_16_cases:
  "k < 16 \<Longrightarrow> k = 0 \<or> k = 1 \<or> k = 2 \<or> k = 3 \<or> k = 4 \<or> k = 5 \<or> k = 6 \<or> k = 7
     \<or> k = 8 \<or> k = 9 \<or> k = 10 \<or> k = 11 \<or> k = 12 \<or> k = 13 \<or> k = 14 \<or> k = (15::nat)"
  by arith

lemma hex_char_val: "k < 16 \<Longrightarrow> hex_digit_val (''0123456789ABCDEF'' ! k) = k"
  by (drule less_16_cases) (elim disjE; simp add: hex_digit_val_def)

lemma hex_char_mem: "k < 16 \<Longrightarrow> ''0123456789ABCDEF'' ! k \<in> set ''0123456789ABCDEF''"
  by (rule nth_mem) simp

lemma hex_val_Nil: "hex_val [] = 0"
  by (simp add: hex_val_def)

lemma hex_val_snoc: "hex_val (xs @ [c]) = 16 * hex_val xs + hex_digit_val c"
  by (simp add: hex_val_def)

lemma hex_val_replicate0: "hex_val (replicate m (CHR ''0'') @ xs) = hex_val xs"
proof -
  have "foldl (\<lambda>a c. 16 * a + hex_digit_val c) 0 (replicate m (CHR ''0'')) = 0"
    by (induction m) (simp_all add: hex_digit_val_def)
  then show ?thesis by (simp add: hex_val_def)
qed

lemma hex_val_zero_pad: "hex_val (zero_pad w ds) = hex_val ds"
  by (simp add: zero_pad_def hex_val_replicate0)

lemma set_hex_digits: "set (hex_digits n) \<subseteq> set ''0123456789ABCDEF''"
proof (induction n rule: hex_digits.induct)
  case (1 n)
  show ?case
  proof (cases "n < 16")
    case True
    then show ?thesis using hex_char_mem [of n] by (simp add: hex_digits.simps [of n])
  next
    case False
    have "n mod 16 < 16" by simp
    then have "''0123456789ABCDEF'' ! (n mod 16) \<in> set ''0123456789ABCDEF''"
      by (rule hex_char_mem)
    with 1 False show ?thesis by (simp add: hex_digits.simps [of n])
  qed
qed

lemma hex_val_hex_digits: "hex_val (hex_digits n) = n"
proof (induction n rule: hex_digits.induct)
  case (1 n)
  show ?case
  proof (cases "n < 16")
    case True
    then show ?thesis
      using hex_char_val [of n] by (simp add: hex_digits.simps [of n] hex_val_def)
  next
    case False
    with 1 have "hex_val (hex_digits (n div 16)) = n div 16" by simp
    moreover have "hex_digit_val (''0123456789ABCDEF'' ! (n mod 16)) = n mod 16"
      by (rule hex_char_val) simp
    ultimately show ?thesis using False
      by (simp add: hex_digits.simps [of n] hex_val_snoc)
  qed
qed

lemma length_hex_digits: "n < 16 ^ k \<Longrightarrow> 0 < k \<Longrightarrow> length (hex_digits n) \<le> k"
proof (induction n arbitrary: k rule: hex_digits.induct)
  case (1 n)
  show ?case
  proof (cases "n < 16")
    case True
    with 1(3) show ?thesis by (simp add: hex_digits.simps [of n])
  next
    case False
    from False 1(2) have "k \<noteq> 1" by auto
    with 1(3) obtain j where k: "k = Suc j" and j: "0 < j"
      by (cases k) auto
    from 1(2) k have "n div 16 < 16 ^ j"
      by (simp add: less_mult_imp_div_less mult.commute)
    with 1(1) False j have "length (hex_digits (n div 16)) \<le> j" by simp
    with False k show ?thesis by (simp add: hex_digits.simps [of n])
  qed
qed

lemma format_08X_wf:
  assumes "0 \<le> u" "u < 2 ^ 32"
  shows "length (format_08X u) = 8"
    and "set (format_08X u) \<subseteq> set ''0123456789ABCDEF''"
    and "int (hex_val (format_08X u)) = u"
proof -
  from assms have f: "format_08X u = zero_pad 8 (hex_digits (nat u))"
    by (simp add: format_08X_def)
  from assms have "nat u < 16 ^ 8" by (simp add: nat_less_iff)
  then have "length (hex_digits (nat u)) \<le> 8" by (rule length_hex_digits) simp
  then show "length (format_08X u) = 8" by (simp add: f length_zero_pad)
  have "set (zero_pad 8 (hex_digits (nat u))) \<subseteq> insert (CHR ''0'') (set (hex_digits (nat u)))"
    by (rule set_zero_pad)
  also have "\<dots> \<subseteq> set ''0123456789ABCDEF''"
    using set_hex_digits [of "nat u"] by auto
  finally show "set (format_08X u) \<subseteq> set ''0123456789ABCDEF''" by (simp only: f)
  show "int (hex_val (format_08X u)) = u"
    using assms by (simp add: f hex_val_zero_pad hex_val_hex_digits)
qed

lemma bin32_to_hex8_wf:
  assumes "length b = 32" "set b \<subseteq> {CHR ''0'', CHR ''1''}"
  shows "bin32_to_hex8 b p = Inr ((if p then ''0x'' else []) @ format_08X (py_int_base2 b))"
  using assms by (simp add: bin32_to_hex8_def bin32_malformed_iff)

lemma parse_decimal_signed_errors:
  "parse_decimal_signed x = Inl e \<Longrightarrow>
     e \<noteq> Bin32_not_32_binary_chars \<and> e \<noteq> Unknown_format_selector f"
  by (auto simp: parse_decimal_signed_def Let_def split: option.splits sum.splits if_splits)

lemma saturated_bin32_wf:
  "length (int32_to_bin32 (fst (saturate_int32 v))) = 32"
  "set (int32_to_bin32 (fst (saturate_int32 v))) \<subseteq> {CHR ''0'', CHR ''1''}"
  using saturate_int32_range [of v] by (simp_all add: int32_to_bin32_wf)

lemma convert_unfold:
  "convert x fmt p =
     (case parse_decimal_signed x of
        Inl e \<Rightarrow> Inl e
      | Inr v \<Rightarrow>
          (if fmt \<in> {''DEC'', ''BIN'', ''HEX''} then
             Inr \<lparr>value_out =
                    (if fmt = ''DEC'' then py_str (fst (saturate_int32 v))
                     else if fmt = ''BIN'' then int32_to_bin32 (fst (saturate_int32 v))
                     else (if p then ''0x'' else []) @
                       format_08X (py_int_base2 (int32_to_bin32 (fst (saturate_int32 v))))),
                  overflow = detect_overflow v,
                  saturated = snd (saturate_int32 v),
                  x_input = v,
                  x_sat = fst (saturate_int32 v),
                  bin32 = int32_to_bin32 (fst (saturate_int32 v)),
                  hex8 = (if p then ''0x'' else []) @
                       format_08X (py_int_base2 (int32_to_bin32 (fst (saturate_int32 v))))\<rparr>
           else Inl (Unknown_format_selector fmt)))"
proof (cases "parse_decimal_signed x")
  case (Inl e)
  then show ?thesis by (simp add: convert_def)
next
  case (Inr v)
  obtain xs sat where s: "saturate_int32 v = (xs, sat)"
    by (cases "saturate_int32 v")
  have wf: "length (int32_to_bin32 xs) = 32" "set (int32_to_bin32 xs) \<subseteq> {CHR ''0'', CHR ''1''}"
    using saturated_bin32_wf [of v] s by simp_all
  show ?thesis
    by (simp add: convert_def Inr s Let_def bin32_to_hex8_wf [OF wf])
qed

section \<open>Stripping, matching and reading decimal texts\<close>

lemma space_not_digit: "py_isspace c \<Longrightarrow> \<not> is_digit c"
  by (auto simp: py_isspace_def is_digit_numeral nd_starts_def)

lemma int_space_imp_space: "int_space c \<Longrightarrow> py_isspace c"
  by (auto simp: int_space_def py_isspace_def)

lemma not_digit_signs:
  "\<not> is_digit 43" "\<not> is_digit 45" "\<not> is_digit 95" "\<not> is_digit 10"
  by (simp_all add: is_digit_numeral nd_starts_def)

lemma is_digit_not_other:
  "is_digit c \<Longrightarrow>
     c \<noteq> 43 \<and> c \<noteq> 45 \<and> c \<noteq> 95 \<and> c \<noteq> 10 \<and> \<not> py_isspace c \<and> \<not> int_space c"
  using not_digit_signs space_not_digit [of c] int_space_imp_space [of c] by auto

lemma sign_not_space:
  "\<not> py_isspace 43" "\<not> py_isspace 45" "\<not> int_space 43" "\<not> int_space 45"
  by (simp_all add: py_isspace_numeral int_space_numeral)

lemma last_dropWhile_keep: "dropWhile P xs \<noteq> [] \<Longrightarrow> last (dropWhile P xs) = last xs"
proof -
  assume a: "dropWhile P xs \<noteq> []"
  have "last xs = last (takeWhile P xs @ dropWhile P xs)" by simp
  also have "\<dots> = last (dropWhile P xs)" using a by (rule last_appendR)
  finally show ?thesis by simp
qed

lemma py_strip_ends:
  assumes "py_strip s \<noteq> []"
  shows "\<not> py_isspace (hd (py_strip s))" and "\<not> py_isspace (last (py_strip s))"
proof -
  let ?a = "dropWhile py_isspace s"
  let ?b = "dropWhile py_isspace (rev ?a)"
  from assms have b: "?b \<noteq> []" by (simp add: py_strip_def)
  have a: "?a \<noteq> []"
  proof
    assume e: "?a = []"
    have "?b = []" unfolding e by simp
    with b show False by simp
  qed
  have "last (py_strip s) = hd ?b" using b by (simp add: py_strip_def last_rev)
  with b show "\<not> py_isspace (last (py_strip s))" by (simp add: hd_dropWhile)
  have "hd (py_strip s) = last ?b" using b by (simp add: py_strip_def hd_rev)
  also have "\<dots> = last (rev ?a)" using b by (rule last_dropWhile_keep)
  also have "\<dots> = hd ?a" using a by (simp add: last_rev)
  finally show "\<not> py_isspace (hd (py_strip s))" using a by (simp add: hd_dropWhile)
qed

lemma py_strip_id:
  assumes "s \<noteq> []" "\<not> py_isspace (hd s)" "\<not> py_isspace (last s)"
  shows "py_strip s = s"
proof -
  from assms(1,2) have 1: "dropWhile py_isspace s = s" by (cases s) auto
  from assms(1,3) have "\<not> py_isspace (hd (rev s))" by (simp add: hd_rev)
  with assms(1) have 2: "dropWhile py_isspace (rev s) = rev s" by (cases "rev s") auto
  show ?thesis by (simp add: py_strip_def 1 2)
qed

lemma py_strip_last_not_lf: "py_strip s \<noteq> [] \<Longrightarrow> last (py_strip s) \<noteq> 10"
  using py_strip_ends(2) [of s] by (auto simp: py_isspace_def)

lemma digit_run:
  assumes "r = [] \<or> last r \<noteq> 10"
  shows "(takeWhile is_digit r \<noteq> [] \<and>
           (dropWhile is_digit r = [] \<or> dropWhile is_digit r = [10]))
         \<longleftrightarrow> (r \<noteq> [] \<and> (\<forall>c\<in>set r. is_digit c))"
proof
  assume l: "takeWhile is_digit r \<noteq> [] \<and>
           (dropWhile is_digit r = [] \<or> dropWhile is_digit r = [10])"
  then have ne: "r \<noteq> []" by auto
  have "dropWhile is_digit r \<noteq> [10]"
  proof
    assume d: "dropWhile is_digit r = [10]"
    then have "last r = 10"
      using last_dropWhile_keep [of is_digit r] by simp
    with assms ne show False by simp
  qed
  with l have "dropWhile is_digit r = []" by simp
  then have "\<forall>c\<in>set r. is_digit c" by (simp add: dropWhile_eq_Nil_conv)
  with ne show "r \<noteq> [] \<and> (\<forall>c\<in>set r. is_digit c)" by simp
next
  assume "r \<noteq> [] \<and> (\<forall>c\<in>set r. is_digit c)"
  then show "takeWhile is_digit r \<noteq> [] \<and>
           (dropWhile is_digit r = [] \<or> dropWhile is_digit r = [10])"
    by (simp add: takeWhile_eq_all_conv [THEN iffD2])
qed

lemma DEC_PATTERN_match_stripped:
  assumes "t = [] \<or> last t \<noteq> 10"
  shows "DEC_PATTERN_match t \<longleftrightarrow>
     (\<exists>sg ds. t = sg @ ds \<and> sg \<in> {[], [43], [45]} \<and> ds \<noteq> [] \<and> (\<forall>c\<in>set ds. is_digit c))"
proof (cases t)
  case Nil
  then show ?thesis by (simp add: DEC_PATTERN_match_def)
next
  case (Cons c u)
  show ?thesis
  proof (cases "c = 43 \<or> c = 45")
    case True
    have u: "u = [] \<or> last u \<noteq> 10" using assms Cons by (cases u) auto
    have r: "(case t of [] \<Rightarrow> [] | c # u \<Rightarrow> if c = 43 \<or> c = 45 then u else t) = u"
      using True Cons by simp
    have m: "DEC_PATTERN_match t \<longleftrightarrow> (u \<noteq> [] \<and> (\<forall>c\<in>set u. is_digit c))"
      unfolding DEC_PATTERN_match_def Let_def r by (rule digit_run [OF u])
    have "(\<exists>sg ds. t = sg @ ds \<and> sg \<in> {[], [43], [45]} \<and> ds \<noteq> [] \<and> (\<forall>c\<in>set ds. is_digit c))
        \<longleftrightarrow> (u \<noteq> [] \<and> (\<forall>c\<in>set u. is_digit c))"
    proof
      assume "\<exists>sg ds. t = sg @ ds \<and> sg \<in> {[], [43], [45]} \<and> ds \<noteq> [] \<and> (\<forall>c\<in>set ds. is_digit c)"
      then obtain sg ds where d: "t = sg @ ds" "sg \<in> {[], [43], [45]}" "ds \<noteq> []"
        "\<forall>c\<in>set ds. is_digit c" by blast
      have "sg \<noteq> []"
      proof
        assume "sg = []"
        with d Cons have "is_digit c" by auto
        with True show False using is_digit_not_other [of c] by auto
      qed
      with d(1,2) Cons have "ds = u" by auto
      with d show "u \<noteq> [] \<and> (\<forall>c\<in>set u. is_digit c)" by simp
    next
      assume a: "u \<noteq> [] \<and> (\<forall>c\<in>set u. is_digit c)"
      from True Cons have "t = [c] @ u \<and> [c] \<in> {[], [43], [45]}" by auto
      with a show "\<exists>sg ds. t = sg @ ds \<and> sg \<in> {[], [43], [45]} \<and> ds \<noteq> []
          \<and> (\<forall>c\<in>set ds. is_digit c)" by blast
    qed
    with m show ?thesis by simp
  next
    case False
    have r: "(case t of [] \<Rightarrow> [] | c # u \<Rightarrow> if c = 43 \<or> c = 45 then u else t) = t"
      using False Cons by simp
    have m: "DEC_PATTERN_match t \<longleftrightarrow> (t \<noteq> [] \<and> (\<forall>c\<in>set t. is_digit c))"
      unfolding DEC_PATTERN_match_def Let_def r by (rule digit_run [OF assms])
    have "(\<exists>sg ds. t = sg @ ds \<and> sg \<in> {[], [43], [45]} \<and> ds \<noteq> [] \<and> (\<forall>c\<in>set ds. is_digit c))
        \<longleftrightarrow> (t \<noteq> [] \<and> (\<forall>c\<in>set t. is_digit c))"
    proof
      assume "\<exists>sg ds. t = sg @ ds \<and> sg \<in> {[], [43], [45]} \<and> ds \<noteq> [] \<and> (\<forall>c\<in>set ds. is_digit c)"
      then obtain sg ds where d: "t = sg @ ds" "sg \<in> {[], [43], [45]}" "ds \<noteq> []"
        "\<forall>c\<in>set ds. is_digit c" by blast
      from d(1,2) Cons False have "sg = []" by auto
      with d show "t \<noteq> [] \<and> (\<forall>c\<in>set t. is_digit c)" by simp
    next
      assume a: "t \<noteq> [] \<and> (\<forall>c\<in>set t. is_digit c)"
      have "t = [] @ t \<and> [] \<in> {[], [43], [45::nat]}" by simp
      with a show "\<exists>sg ds. t = sg @ ds \<and> sg \<in> {[], [43], [45]} \<and> ds \<noteq> []
          \<and> (\<forall>c\<in>set ds. is_digit c)" by blast
    qed
    with m show ?thesis by simp
  qed
qed

lemma int_body_ok_digits: "ds \<noteq> [] \<Longrightarrow> \<forall>c\<in>set ds. is_digit c \<Longrightarrow> int_body_ok ds"
proof (induction ds rule: int_body_ok.induct)
  case 1
  then show ?case by simp
next
  case (2 c)
  then show ?case by simp
next
  case (3 c d cs)
  from 3(4) have "d \<noteq> 95" using is_digit_not_other [of d] by auto
  with 3 show ?case by simp
qed

lemma digits_scan:
  assumes "\<forall>c\<in>set ds. is_digit c"
  shows "takeWhile (\<lambda>c. is_digit c \<or> c = 95) ds = ds"
    and "dropWhile (\<lambda>c. is_digit c \<or> c = 95) ds = []"
    and "filter is_digit ds = ds"
  using assms by (simp_all add: takeWhile_eq_all_conv [THEN iffD2])

lemma py_int_base10_body:
  assumes "ds \<noteq> []" "\<forall>c\<in>set ds. is_digit c"
    and t: "dropWhile int_space s = t"
    and neg: "(case t of [] \<Rightarrow> False | c # x \<Rightarrow> c = 45) = n"
    and body: "(case t of [] \<Rightarrow> [] | c # r \<Rightarrow> if c = 43 \<or> c = 45 then r else t) = ds"
  shows "py_int_base10 s =
     (if length ds > int_max_str_digits then Inl (Exceeds_max_str_digits (length ds))
      else Inr (if n then - int (dec_val ds) else int (dec_val ds)))"
  unfolding py_int_base10_def t Let_def neg body digits_scan [OF assms(2)]
  using int_body_ok_digits [OF assms(1,2)] by simp

lemma py_int_base10_signed:
  assumes "sg \<in> {[], [43], [45]}" "ds \<noteq> []" "\<forall>c\<in>set ds. is_digit c"
  shows "py_int_base10 (sg @ ds) =
     (if length ds > int_max_str_digits then Inl (Exceeds_max_str_digits (length ds))
      else Inr (if sg = [45] then - int (dec_val ds) else int (dec_val ds)))"
proof -
  obtain c u where ds: "ds = c # u" using assms(2) by (cases ds) auto
  with assms(3) have c: "is_digit c" by simp
  note nc = is_digit_not_other [OF c]
  from assms(1) consider "sg = []" | "sg = [43]" | "sg = [45]" by auto
  then show ?thesis
  proof cases
    case 1
    have t: "dropWhile int_space (sg @ ds) = ds" using nc by (simp add: 1 ds)
    have "py_int_base10 (sg @ ds) =
       (if length ds > int_max_str_digits then Inl (Exceeds_max_str_digits (length ds))
        else Inr (if False then - int (dec_val ds) else int (dec_val ds)))"
      by (rule py_int_base10_body [OF assms(2,3) t]) (simp_all add: ds nc)
    with 1 show ?thesis by simp
  next
    case 2
    have t: "dropWhile int_space (sg @ ds) = 43 # ds" by (simp add: 2 sign_not_space)
    have "py_int_base10 (sg @ ds) =
       (if length ds > int_max_str_digits then Inl (Exceeds_max_str_digits (length ds))
        else Inr (if False then - int (dec_val ds) else int (dec_val ds)))"
      by (rule py_int_base10_body [OF assms(2,3) t]) simp_all
    with 2 show ?thesis by simp
  next
    case 3
    have t: "dropWhile int_space (sg @ ds) = 45 # ds" by (simp add: 3 sign_not_space)
    have "py_int_base10 (sg @ ds) =
       (if length ds > int_max_str_digits then Inl (Exceeds_max_str_digits (length ds))
        else Inr (if True then - int (dec_val ds) else int (dec_val ds)))"
      by (rule py_int_base10_body [OF assms(2,3) t]) simp_all
    with 3 show ?thesis by simp
  qed
qed

lemma parse_decimal_signed_grammar:
  assumes "py_strip s = sg @ ds" "sg \<in> {[], [43], [45]}" "ds \<noteq> []" "\<forall>c\<in>set ds. is_digit c"
  shows "parse_decimal_signed (Some s) =
     (if length ds > int_max_str_digits
      then Inl (Int_ValueError (Exceeds_max_str_digits (length ds)))
      else Inr (if sg = [45] then - int (dec_val ds) else int (dec_val ds)))"
proof -
  have ne: "py_strip s \<noteq> []" using assms(1,3) by simp
  from py_strip_last_not_lf [OF ne] have "DEC_PATTERN_match (py_strip s)"
    using assms by (subst DEC_PATTERN_match_stripped) auto
  moreover have "py_int_base10 (py_strip s) =
     (if length ds > int_max_str_digits then Inl (Exceeds_max_str_digits (length ds))
      else Inr (if sg = [45] then - int (dec_val ds) else int (dec_val ds)))"
    unfolding assms(1) by (rule py_int_base10_signed [OF assms(2,3,4)])
  ultimately show ?thesis using ne by (simp add: parse_decimal_signed_def)
qed

lemma parse_decimal_signed_reject:
  assumes "\<not> (\<exists>sg ds. py_strip s = sg @ ds \<and> sg \<in> {[], [43], [45]} \<and> ds \<noteq> []
      \<and> (\<forall>c\<in>set ds. is_digit c))"
  shows "parse_decimal_signed (Some s) =
     Inl (if py_strip s = [] then Empty_input_value else Invalid_decimal_integer (py_strip s))"
proof (cases "py_strip s = []")
  case True
  then show ?thesis by (simp add: parse_decimal_signed_def)
next
  case False
  from py_strip_last_not_lf [OF False] have "\<not> DEC_PATTERN_match (py_strip s)"
    using assms by (subst DEC_PATTERN_match_stripped) auto
  with False show ?thesis by (simp add: parse_decimal_signed_def)
qed

section \<open>Decimal rendering\<close>

lemma less_10_cases:
  "k < 10 \<Longrightarrow> k = 0 \<or> k = 1 \<or> k = 2 \<or> k = 3 \<or> k = 4 \<or> k = 5 \<or> k = 6 \<or> k = 7
     \<or> k = 8 \<or> k = (9::nat)"
  by arith

lemma dec_char:
  "k < 10 \<Longrightarrow> is_digit (of_char (''0123456789'' ! k))
     \<and> digit_val (of_char (''0123456789'' ! k)) = k"
  by (drule less_10_cases)
     (elim disjE; simp add: is_digit_numeral digit_val_numeral nd_starts_def)

lemma ustr_snoc: "ustr (xs @ [c]) = ustr xs @ [of_char c]"
  by (simp add: ustr_def)

lemma dec_val_snoc: "dec_val (xs @ [c]) = 10 * dec_val xs + digit_val c"
  by (simp add: dec_val_def)

lemma dec_digits_nonempty: "dec_digits n \<noteq> []"
  by (simp add: dec_digits.simps [of n])

lemma dec_digits_wf:
  "(\<forall>c\<in>set (ustr (dec_digits n)). is_digit c) \<and> dec_val (ustr (dec_digits n)) = n"
proof (induction n rule: dec_digits.induct)
  case (1 n)
  show ?case
  proof (cases "n < 10")
    case True
    then show ?thesis
      using dec_char [of n] by (simp add: dec_digits.simps [of n] dec_val_def ustr_def)
  next
    case False
    with 1 have ih: "(\<forall>c\<in>set (ustr (dec_digits (n div 10))). is_digit c)
        \<and> dec_val (ustr (dec_digits (n div 10))) = n div 10" by simp
    have "n mod 10 < 10" by simp
    from dec_char [OF this] ih False show ?thesis
      by (simp add: dec_digits.simps [of n] dec_val_snoc ustr_snoc)
  qed
qed

lemma length_dec_digits: "n < 10 ^ k \<Longrightarrow> 0 < k \<Longrightarrow> length (dec_digits n) \<le> k"
proof (induction n arbitrary: k rule: dec_digits.induct)
  case (1 n)
  show ?case
  proof (cases "n < 10")
    case True
    with 1(3) show ?thesis by (simp add: dec_digits.simps [of n])
  next
    case False
    from False 1(2) have "k \<noteq> 1" by auto
    with 1(3) obtain j where k: "k = Suc j" and j: "0 < j"
      by (cases k) auto
    from 1(2) k have "n div 10 < 10 ^ j"
      by (simp add: less_mult_imp_div_less mult.commute)
    with 1(1) False j have "length (dec_digits (n div 10)) \<le> j" by simp
    with False k show ?thesis by (simp add: dec_digits.simps [of n])
  qed
qed

lemma parse_signed_digits:
  assumes "sg \<in> {[], [43], [45]}" "ds \<noteq> []" "\<forall>c\<in>set ds. is_digit c"
  shows "parse_decimal_signed (Some (sg @ ds)) =
     (if length ds > int_max_str_digits
      then Inl (Int_ValueError (Exceeds_max_str_digits (length ds)))
      else Inr (if sg = [45] then - int (dec_val ds) else int (dec_val ds)))"
proof -
  have "is_digit (hd ds)" "is_digit (last ds)" using assms(2,3) by simp_all
  then have d: "\<not> py_isspace (hd ds)" "\<not> py_isspace (last ds)"
    using space_not_digit by blast+
  have h: "\<not> py_isspace (hd (sg @ ds))"
    using assms(1,2) d(1) sign_not_space by auto
  have l: "\<not> py_isspace (last (sg @ ds))" using assms(2) d(2) by simp
  have "sg @ ds \<noteq> []" using assms(2) by simp
  then have st: "py_strip (sg @ ds) = sg @ ds" using h l by (rule py_strip_id)
  show ?thesis by (rule parse_decimal_signed_grammar [OF st assms])
qed

lemma parse_py_str:
  assumes "MIN_INT32 \<le> x" "x \<le> MAX_INT32"
  shows "parse_decimal_signed (Some (ustr (py_str x))) = Inr x"
proof -
  have dig: "ustr (dec_digits m) \<noteq> []" "\<forall>c\<in>set (ustr (dec_digits m)). is_digit c"
    "dec_val (ustr (dec_digits m)) = m" for m
    using dec_digits_wf [of m] dec_digits_nonempty [of m] by (simp_all add: ustr_def)
  have len: "\<not> length (ustr (dec_digits m)) > int_max_str_digits" if "m < 10 ^ 10" for m
  proof -
    from that have "length (dec_digits m) \<le> 10" by (rule length_dec_digits) simp
    then show ?thesis by (simp add: ustr_def int_max_str_digits_def)
  qed
  show ?thesis
  proof (cases "x < 0")
    case True
    let ?m = "nat (- x)"
    have s: "ustr (py_str x) = [45] @ ustr (dec_digits ?m)"
      using True by (simp add: py_str_def ustr_def)
    have "?m < 10 ^ 10" using assms by (simp add: MIN_INT32_def)
    note l = len [OF this]
    have "parse_decimal_signed (Some ([45] @ ustr (dec_digits ?m))) =
       (if length (ustr (dec_digits ?m)) > int_max_str_digits
        then Inl (Int_ValueError (Exceeds_max_str_digits (length (ustr (dec_digits ?m)))))
        else Inr (if [45] = [45::nat] then - int (dec_val (ustr (dec_digits ?m)))
                  else int (dec_val (ustr (dec_digits ?m)))))"
      by (rule parse_signed_digits) (simp_all add: dig)
    with l True show ?thesis by (simp add: s dig)
  next
    case False
    let ?m = "nat x"
    have s: "ustr (py_str x) = [] @ ustr (dec_digits ?m)"
      using False by (simp add: py_str_def)
    have "?m < 10 ^ 10" using assms by (simp add: MAX_INT32_def)
    note l = len [OF this]
    have "parse_decimal_signed (Some ([] @ ustr (dec_digits ?m))) =
       (if length (ustr (dec_digits ?m)) > int_max_str_digits
        then Inl (Int_ValueError (Exceeds_max_str_digits (length (ustr (dec_digits ?m)))))
        else Inr (if [] = [45::nat] then - int (dec_val (ustr (dec_digits ?m)))
                  else int (dec_val (ustr (dec_digits ?m)))))"
      by (rule parse_signed_digits) (simp_all add: dig)
    with l False show ?thesis by (simp add: s dig)
  qed
qed

section \<open>Claims\<close>

text \<open>
  C3. The clamped value returned by \<open>saturate_int32\<close> is \<open>2^31 - 1\<close> for an input above
  the range, \<open>-2^31\<close> for an input below it, and the input itself inside the range; the
  \<open>x_sat\<close> field of a result of \<open>convert\<close> is that clamped value of the parsed input.
\<close>

theorem saturate_int32_correct:
  "(v > 2 ^ 31 - 1 \<longrightarrow> fst (saturate_int32 v) = 2 ^ 31 - 1)
   \<and> (v < - (2 ^ 31) \<longrightarrow> fst (saturate_int32 v) = - (2 ^ 31))
   \<and> (- (2 ^ 31) \<le> v \<and> v \<le> 2 ^ 31 - 1 \<longrightarrow> fst (saturate_int32 v) = v)
   \<and> (convert x fmt p = Inr r \<longrightarrow>
        parse_decimal_signed x = Inr (x_input r) \<and> x_sat r = fst (saturate_int32 (x_input r)))"
proof -
  have "convert x fmt p = Inr r \<Longrightarrow>
        parse_decimal_signed x = Inr (x_input r) \<and> x_sat r = fst (saturate_int32 (x_input r))"
    by (drule convert_Inr_fields) auto
  then show ?thesis
    by (auto simp: saturate_int32_def MIN_INT32_def MAX_INT32_def)
qed

theorem saturate_int32_correct_witness:
  "fst (saturate_int32 2147483648) = 2147483647
   \<and> fst (saturate_int32 (- 2147483649)) = - 2147483648
   \<and> fst (saturate_int32 (- 123)) = - 123
   \<and> x_sat (projr (convert (Some (ustr ''2147483648'')) ''DEC'' False)) = 2147483647"
  using saturate_int32_correct [of 2147483648 "Some (ustr ''2147483648'')" "''DEC''" False
      "projr (convert (Some (ustr ''2147483648'')) ''DEC'' False)"]
    saturate_int32_correct [of "- 2147483649"]
    saturate_int32_correct [of "- 123"]
  by (simp add: convert_max_plus_1)

text \<open>
  C4. \<open>detect_overflow\<close> returns 1 exactly for the integers below \<open>-2^31\<close> or above
  \<open>2^31 - 1\<close> and 0 for all others, and the \<open>overflow\<close> field of a result of \<open>convert\<close>
  is that classification of the parsed input.
\<close>

theorem detect_overflow_iff:
  "(detect_overflow v = 1 \<longleftrightarrow> v < - (2 ^ 31) \<or> v > 2 ^ 31 - 1)
   \<and> (detect_overflow v = 0 \<longleftrightarrow> \<not> (v < - (2 ^ 31) \<or> v > 2 ^ 31 - 1))
   \<and> (convert x fmt p = Inr r \<longrightarrow>
        parse_decimal_signed x = Inr (x_input r) \<and> overflow r = detect_overflow (x_input r))"
proof -
  have "convert x fmt p = Inr r \<Longrightarrow>
        parse_decimal_signed x = Inr (x_input r) \<and> overflow r = detect_overflow (x_input r)"
    by (drule convert_Inr_fields) auto
  then show ?thesis
    by (auto simp: detect_overflow_def MIN_INT32_def MAX_INT32_def)
qed

theorem detect_overflow_iff_witness:
  "detect_overflow 2147483648 = 1 \<and> detect_overflow 2147483647 = 0
   \<and> detect_overflow (- 2147483649) = 1 \<and> detect_overflow (- 2147483648) = 0
   \<and> overflow (projr (convert (Some (ustr ''2147483648'')) ''DEC'' False)) = 1"
  using detect_overflow_iff [of 2147483648 "Some (ustr ''2147483648'')" "''DEC''" False
      "projr (convert (Some (ustr ''2147483648'')) ''DEC'' False)"]
    detect_overflow_iff [of 2147483647]
    detect_overflow_iff [of "- 2147483649"]
    detect_overflow_iff [of "- 2147483648"]
  by (simp add: convert_max_plus_1)

text \<open>
  C7. The flag returned by \<open>saturate_int32\<close> equals the flag returned by
  \<open>detect_overflow\<close>, it is 1 exactly when the clamped value differs from the input, and
  the \<open>overflow\<close> and \<open>saturated\<close> fields of every result of \<open>convert\<close> are equal.
\<close>

theorem saturated_eq_overflow:
  "snd (saturate_int32 v) = detect_overflow v
   \<and> (snd (saturate_int32 v) = 1 \<longleftrightarrow> fst (saturate_int32 v) \<noteq> v)
   \<and> (snd (saturate_int32 v) = 0 \<longleftrightarrow> fst (saturate_int32 v) = v)
   \<and> (convert x fmt p = Inr r \<longrightarrow> saturated r = overflow r)"
proof -
  have flags: "snd (saturate_int32 w) = detect_overflow w" for w
    by (simp add: saturate_int32_def detect_overflow_def MIN_INT32_def MAX_INT32_def)
  have "convert x fmt p = Inr r \<Longrightarrow> saturated r = overflow r"
    by (drule convert_Inr_fields) (auto simp: flags)
  moreover have "snd (saturate_int32 v) = 1 \<longleftrightarrow> fst (saturate_int32 v) \<noteq> v"
    by (simp add: saturate_int32_def MIN_INT32_def MAX_INT32_def)
  moreover have "snd (saturate_int32 v) = 0 \<longleftrightarrow> fst (saturate_int32 v) = v"
    by (simp add: saturate_int32_def MIN_INT32_def MAX_INT32_def)
  ultimately show ?thesis using flags [of v] by blast
qed

theorem saturated_eq_overflow_witness:
  "snd (saturate_int32 2147483648) = 1 \<and> detect_overflow 2147483648 = 1
   \<and> saturated (projr (convert (Some (ustr ''2147483648'')) ''DEC'' False)) = 1
   \<and> overflow (projr (convert (Some (ustr ''2147483648'')) ''DEC'' False)) = 1"
  using saturated_eq_overflow [of 2147483648 "Some (ustr ''2147483648'')" "''DEC''" False
      "projr (convert (Some (ustr ''2147483648'')) ''DEC'' False)"]
  by (simp add: convert_max_plus_1 saturate_int32_def MAX_INT32_def MIN_INT32_def)

text \<open>
  C1. Encoder and decoder are mutual inverses: every \<open>v\<close> in \<open>[-2^31, 2^31 - 1]\<close> is
  encoded as a text of 32 binary digits that decodes to \<open>v\<close>, and every text \<open>b\<close> of 32
  binary digits decodes to a value in that range whose encoding is \<open>b\<close>.
\<close>

theorem bin32_bijection:
  "(- (2 ^ 31) \<le> v \<and> v \<le> 2 ^ 31 - 1 \<longrightarrow>
      length (int32_to_bin32 v) = 32 \<and> set (int32_to_bin32 v) \<subseteq> {CHR ''0'', CHR ''1''}
      \<and> bin32_to_int32 (int32_to_bin32 v) = Inr v)
   \<and> (length b = 32 \<and> set b \<subseteq> {CHR ''0'', CHR ''1''} \<longrightarrow>
      (\<exists>w. bin32_to_int32 b = Inr w \<and> - (2 ^ 31) \<le> w \<and> w \<le> 2 ^ 31 - 1
           \<and> int32_to_bin32 w = b))"
proof (intro conjI impI)
  assume "- (2 ^ 31) \<le> v \<and> v \<le> 2 ^ 31 - 1"
  then have r: "MIN_INT32 \<le> v" "v \<le> MAX_INT32"
    by (simp_all add: MIN_INT32_def MAX_INT32_def)
  show "length (int32_to_bin32 v) = 32" by (rule int32_to_bin32_wf [OF r])
  show "set (int32_to_bin32 v) \<subseteq> {CHR ''0'', CHR ''1''}" by (rule int32_to_bin32_wf [OF r])
  show "bin32_to_int32 (int32_to_bin32 v) = Inr v" by (rule decode_encode [OF r])
next
  assume "length b = 32 \<and> set b \<subseteq> {CHR ''0'', CHR ''1''}"
  then have b: "length b = 32" "set b \<subseteq> {CHR ''0'', CHR ''1''}" by simp_all
  from encode_decode [OF b] obtain w where w: "bin32_to_int32 b = Inr w" "int32_to_bin32 w = b"
    by blast
  from decode_range [OF b] w(1) have "- (2 ^ 31) \<le> w \<and> w \<le> 2 ^ 31 - 1"
    by (simp add: MIN_INT32_def MAX_INT32_def)
  with w show "\<exists>w. bin32_to_int32 b = Inr w \<and> - (2 ^ 31) \<le> w \<and> w \<le> 2 ^ 31 - 1
      \<and> int32_to_bin32 w = b"
    by blast
qed

theorem bin32_bijection_witness:
  "bin32_to_int32 (int32_to_bin32 (- 5)) = Inr (- 5)
   \<and> (\<exists>w. bin32_to_int32 ''11111111111111111111111110000101'' = Inr w
          \<and> int32_to_bin32 w = ''11111111111111111111111110000101'')"
  using bin32_bijection [of "- 5" "''11111111111111111111111110000101''"]
  by simp blast

text \<open>
  C5. For \<open>v\<close> in \<open>[-2^31, 2^31 - 1]\<close> the encoding is the binary numeral of \<open>v\<close>, or of
  \<open>v + 2^32\<close> when \<open>v\<close> is negative, padded with \<open>0\<close> on the left to 32 digits: it has 32
  binary digits whose value, most significant first, is that number. \<open>-1\<close> gives 32
  ones and \<open>-2^31\<close> a one followed by 31 zeros.
\<close>

theorem int32_to_bin32_twos_complement:
  "(- (2 ^ 31) \<le> v \<and> v \<le> 2 ^ 31 - 1 \<longrightarrow>
      int32_to_bin32 v = zero_pad 32 (bin_digits (nat (if 0 \<le> v then v else v + 2 ^ 32)))
      \<and> length (int32_to_bin32 v) = 32
      \<and> set (int32_to_bin32 v) \<subseteq> {CHR ''0'', CHR ''1''}
      \<and> py_int_base2 (int32_to_bin32 v) = (if 0 \<le> v then v else v + 2 ^ 32))
   \<and> int32_to_bin32 (- 1) = replicate 32 (CHR ''1'')
   \<and> int32_to_bin32 (- (2 ^ 31)) = CHR ''1'' # replicate 31 (CHR ''0'')"
proof (intro conjI impI)
  assume "- (2 ^ 31) \<le> v \<and> v \<le> 2 ^ 31 - 1"
  then have r: "MIN_INT32 \<le> v" "v \<le> MAX_INT32"
    by (simp_all add: MIN_INT32_def MAX_INT32_def)
  from int32_to_bin32_unsigned [OF r]
  show "int32_to_bin32 v = zero_pad 32 (bin_digits (nat (if 0 \<le> v then v else v + 2 ^ 32)))"
    by (simp add: format_032b_def)
  show "length (int32_to_bin32 v) = 32" by (rule int32_to_bin32_wf [OF r])
  show "set (int32_to_bin32 v) \<subseteq> {CHR ''0'', CHR ''1''}" by (rule int32_to_bin32_wf [OF r])
  show "py_int_base2 (int32_to_bin32 v) = (if 0 \<le> v then v else v + 2 ^ 32)"
    by (rule int32_to_bin32_wf [OF r])
next
  show "int32_to_bin32 (- 1) = replicate 32 (CHR ''1'')"
    by (simp add: eval_defs)
  show "int32_to_bin32 (- (2 ^ 31)) = CHR ''1'' # replicate 31 (CHR ''0'')"
    by (simp add: eval_defs)
qed

theorem int32_to_bin32_twos_complement_witness:
  "int32_to_bin32 (- 123) = ''11111111111111111111111110000101''
   \<and> py_int_base2 (int32_to_bin32 (- 123)) = 4294967173
   \<and> int32_to_bin32 123 = ''00000000000000000000000001111011''"
  using int32_to_bin32_twos_complement [of "- 123"] int32_to_bin32_twos_complement [of 123]
  by (simp add: eval_defs)

text \<open>
  C9. The encoding of every \<open>v\<close> in \<open>[-2^31, 2^31 - 1]\<close> has exactly 32 characters, each
  \<open>0\<close> or \<open>1\<close>, so neither the renderer nor the decoder rejects it, and \<open>convert\<close> never
  fails with the malformed bit pattern error.
\<close>

theorem malformed_bit_pattern_unreachable:
  "(- (2 ^ 31) \<le> v \<and> v \<le> 2 ^ 31 - 1 \<longrightarrow>
      length (int32_to_bin32 v) = 32
      \<and> (\<forall>c \<in> set (int32_to_bin32 v). c = CHR ''0'' \<or> c = CHR ''1'')
      \<and> \<not> bin32_malformed (int32_to_bin32 v)
      \<and> bin32_to_hex8 (int32_to_bin32 v) p \<noteq> Inl Bin32_not_32_binary_chars
      \<and> bin32_to_int32 (int32_to_bin32 v) \<noteq> Inl Bin32_not_32_binary_chars)
   \<and> convert x fmt hp \<noteq> Inl Bin32_not_32_binary_chars"
proof (intro conjI impI)
  assume "- (2 ^ 31) \<le> v \<and> v \<le> 2 ^ 31 - 1"
  then have r: "MIN_INT32 \<le> v" "v \<le> MAX_INT32"
    by (simp_all add: MIN_INT32_def MAX_INT32_def)
  note wf = int32_to_bin32_wf(1,2) [OF r]
  show "length (int32_to_bin32 v) = 32" by (rule wf)
  show "\<forall>c \<in> set (int32_to_bin32 v). c = CHR ''0'' \<or> c = CHR ''1''" using wf(2) by auto
  show "\<not> bin32_malformed (int32_to_bin32 v)" using wf by (simp add: bin32_malformed_iff)
  show "bin32_to_hex8 (int32_to_bin32 v) p \<noteq> Inl Bin32_not_32_binary_chars"
    by (simp add: bin32_to_hex8_wf [OF wf])
  show "bin32_to_int32 (int32_to_bin32 v) \<noteq> Inl Bin32_not_32_binary_chars"
    by (simp add: bin32_to_int32_wf [OF wf])
next
  show "convert x fmt hp \<noteq> Inl Bin32_not_32_binary_chars"
    using parse_decimal_signed_errors [of x Bin32_not_32_binary_chars]
    by (auto simp: convert_unfold split: sum.splits)
qed

theorem malformed_bit_pattern_unreachable_witness:
  "length (int32_to_bin32 (- 2147483648)) = 32
   \<and> \<not> bin32_malformed (int32_to_bin32 (- 2147483648))
   \<and> bin32_to_hex8 (int32_to_bin32 (- 2147483648)) True = Inr ''0x80000000''
   \<and> bin32_to_int32 (int32_to_bin32 (- 2147483648)) = Inr (- 2147483648)"
  using malformed_bit_pattern_unreachable [of "- 2147483648" True]
  by (simp add: eval_defs)

text \<open>
  C10. The decoder maps every text of 32 binary digits to a value in
  \<open>[-2^31, 2^31 - 1]\<close>.
\<close>

theorem bin32_to_int32_range:
  "length b = 32 \<and> set b \<subseteq> {CHR ''0'', CHR ''1''} \<longrightarrow>
     (\<exists>w. bin32_to_int32 b = Inr w \<and> - (2 ^ 31) \<le> w \<and> w \<le> 2 ^ 31 - 1)"
  using decode_range [of b] by (simp add: MIN_INT32_def MAX_INT32_def)

theorem bin32_to_int32_range_witness:
  "\<exists>w. bin32_to_int32 ''11111111111111111111111111111111'' = Inr w
      \<and> - (2 ^ 31) \<le> w \<and> w \<le> 2 ^ 31 - 1"
  using bin32_to_int32_range [of "''11111111111111111111111111111111''"]
  by simp

text \<open>
  C6, as stated, fails in two ways: a run of decimal digits longer than the limit of
  \<open>int\<close>, here 4301 times the digit \<open>1\<close>, is refused although it is an optionally
  signed run of digits, and the three Arabic-Indic digits U+0661 U+0662 U+0663 are
  accepted with the value 123.
\<close>

theorem parse_decimal_signed_language_counterexample:
  "parse_decimal_signed (Some (ustr (replicate 4301 (CHR ''1'')))) =
     Inl (Int_ValueError (Exceeds_max_str_digits 4301))
   \<and> parse_decimal_signed (Some [0x661, 0x662, 0x663]) = Inr 123"
proof -
  let ?ds = "replicate 4301 (49::nat)"
  have u: "ustr (replicate 4301 (CHR ''1'')) = ?ds" by (simp add: ustr_def)
  have d: "is_digit 49" by (simp add: is_digit_numeral nd_starts_def)
  have ne: "?ds \<noteq> []" by simp
  have dg: "\<forall>c\<in>set ?ds. is_digit c" using d by simp
  have "\<not> py_isspace 49" using d space_not_digit [of 49] by blast
  then have st: "py_strip ?ds = [] @ ?ds"
    using ne by (simp add: py_strip_id)
  have "parse_decimal_signed (Some ?ds) =
      (if length ?ds > int_max_str_digits
       then Inl (Int_ValueError (Exceeds_max_str_digits (length ?ds)))
       else Inr (if [] = [45::nat] then - int (dec_val ?ds) else int (dec_val ?ds)))"
    by (rule parse_decimal_signed_grammar [OF st _ ne dg]) simp
  then have 1: "parse_decimal_signed (Some (ustr (replicate 4301 (CHR ''1'')))) =
      Inl (Int_ValueError (Exceeds_max_str_digits 4301))"
    by (simp add: u int_max_str_digits_def)
  have 2: "parse_decimal_signed (Some [0x661, 0x662, 0x663]) = Inr 123"
    by (simp add: eval_defs)
  from 1 2 show ?thesis by (rule conjI)
qed

text \<open>
  C6, amended. \<open>parse_decimal_signed\<close> returns a value exactly when the text, with the
  whitespace at both ends removed, is an optional \<open>+\<close> or \<open>-\<close> followed by one or more
  decimal digits, at most 4300 of them; the digits are those of the Unicode category
  Nd, the ASCII digits \<open>0\<close> to \<open>9\<close> among them. The value is the integer the digits
  denote, negated after \<open>-\<close>. A longer run of digits is refused with the error of \<open>int\<close>,
  and every text of another form with the empty input or the invalid decimal integer
  error. The texts \<open>""\<close>, \<open>"  "\<close>, \<open>"12a"\<close>, \<open>"1.5"\<close>, \<open>"++3"\<close> and \<open>"0x10"\<close> are
  rejected; \<open>"0"\<close>, \<open>"-0"\<close>, \<open>"+7"\<close> and \<open>"-2147483648"\<close> are accepted.
\<close>

theorem parse_decimal_signed_language:
  "(parse_decimal_signed (Some s) = Inr v \<longleftrightarrow>
      (\<exists>sg ds. py_strip s = sg @ ds \<and> sg \<in> {[], ustr ''+'', ustr ''-''} \<and> ds \<noteq> []
          \<and> (\<forall>c\<in>set ds. is_digit c) \<and> length ds \<le> 4300
          \<and> v = (if sg = ustr ''-'' then - int (dec_val ds) else int (dec_val ds))))
   \<and> (py_strip s = sg @ ds \<and> sg \<in> {[], ustr ''+'', ustr ''-''} \<and> ds \<noteq> []
          \<and> (\<forall>c\<in>set ds. is_digit c) \<and> length ds > 4300 \<longrightarrow>
        parse_decimal_signed (Some s) = Inl (Int_ValueError (Exceeds_max_str_digits (length ds))))
   \<and> (\<not> (\<exists>sg ds. py_strip s = sg @ ds \<and> sg \<in> {[], ustr ''+'', ustr ''-''} \<and> ds \<noteq> []
          \<and> (\<forall>c\<in>set ds. is_digit c)) \<longrightarrow>
        parse_decimal_signed (Some s) =
          Inl (if py_strip s = [] then Empty_input_value
               else Invalid_decimal_integer (py_strip s)))
   \<and> map decimal_value (ustr ''0123456789'') =
        [Some 0, Some 1, Some 2, Some 3, Some 4, Some 5, Some 6, Some 7, Some 8, Some 9]
   \<and> parse_decimal_signed (Some (ustr [])) = Inl Empty_input_value
   \<and> parse_decimal_signed (Some (ustr ''  '')) = Inl Empty_input_value
   \<and> parse_decimal_signed (Some (ustr ''12a'')) = Inl (Invalid_decimal_integer (ustr ''12a''))
   \<and> parse_decimal_signed (Some (ustr ''1.5'')) = Inl (Invalid_decimal_integer (ustr ''1.5''))
   \<and> parse_decimal_signed (Some (ustr ''++3'')) = Inl (Invalid_decimal_integer (ustr ''++3''))
   \<and> parse_decimal_signed (Some (ustr ''0x10'')) = Inl (Invalid_decimal_integer (ustr ''0x10''))
   \<and> parse_decimal_signed (Some (ustr ''0'')) = Inr 0
   \<and> parse_decimal_signed (Some (ustr ''-0'')) = Inr 0
   \<and> parse_decimal_signed (Some (ustr ''+7'')) = Inr 7
   \<and> parse_decimal_signed (Some (ustr ''-2147483648'')) = Inr (- 2147483648)"
proof -
  have u: "ustr ''+'' = [43]" "ustr ''-'' = [45]" by (simp_all add: ustr_def)
  let ?G = "\<lambda>sg ds. py_strip s = sg @ ds \<and> sg \<in> {[], [43], [45]} \<and> ds \<noteq> []
      \<and> (\<forall>c\<in>set ds. is_digit c)"
  have gr: "parse_decimal_signed (Some s) =
      (if length ds > 4300 then Inl (Int_ValueError (Exceeds_max_str_digits (length ds)))
       else Inr (if sg = [45] then - int (dec_val ds) else int (dec_val ds)))"
    if "?G sg ds" for sg ds
    using that parse_decimal_signed_grammar [of s sg ds]
    by (simp add: int_max_str_digits_def)
  have long: "parse_decimal_signed (Some s) =
      Inl (Int_ValueError (Exceeds_max_str_digits (length ds)))"
    if "py_strip s = sg @ ds \<and> sg \<in> {[], [43], [45]} \<and> ds \<noteq> []
          \<and> (\<forall>c\<in>set ds. is_digit c) \<and> length ds > 4300"
    using that gr [of sg ds] by simp
  have rej: "parse_decimal_signed (Some s) =
      Inl (if py_strip s = [] then Empty_input_value else Invalid_decimal_integer (py_strip s))"
    if "\<not> (\<exists>sg ds. py_strip s = sg @ ds \<and> sg \<in> {[], [43], [45]} \<and> ds \<noteq> []
          \<and> (\<forall>c\<in>set ds. is_digit c))"
    using that by (rule parse_decimal_signed_reject)
  have iff: "parse_decimal_signed (Some s) = Inr v \<longleftrightarrow>
      (\<exists>sg ds. py_strip s = sg @ ds \<and> sg \<in> {[], [43], [45]} \<and> ds \<noteq> []
          \<and> (\<forall>c\<in>set ds. is_digit c) \<and> length ds \<le> 4300
          \<and> v = (if sg = [45] then - int (dec_val ds) else int (dec_val ds)))"
  proof
    assume p: "parse_decimal_signed (Some s) = Inr v"
    have "\<exists>sg ds. ?G sg ds"
    proof (rule ccontr)
      assume "\<not> (\<exists>sg ds. ?G sg ds)"
      from rej [OF this] p show False by simp
    qed
    then obtain sg ds where g: "?G sg ds" by blast
    from gr [OF g] p have "length ds \<le> 4300
        \<and> v = (if sg = [45] then - int (dec_val ds) else int (dec_val ds))"
      by (simp split: if_splits)
    with g show "\<exists>sg ds. py_strip s = sg @ ds \<and> sg \<in> {[], [43], [45]} \<and> ds \<noteq> []
          \<and> (\<forall>c\<in>set ds. is_digit c) \<and> length ds \<le> 4300
          \<and> v = (if sg = [45] then - int (dec_val ds) else int (dec_val ds))"
      by blast
  next
    assume "\<exists>sg ds. py_strip s = sg @ ds \<and> sg \<in> {[], [43], [45]} \<and> ds \<noteq> []
          \<and> (\<forall>c\<in>set ds. is_digit c) \<and> length ds \<le> 4300
          \<and> v = (if sg = [45] then - int (dec_val ds) else int (dec_val ds))"
    then obtain sg ds where g: "?G sg ds" and l: "length ds \<le> 4300"
      and v: "v = (if sg = [45] then - int (dec_val ds) else int (dec_val ds))" by blast
    from gr [OF g] l v show "parse_decimal_signed (Some s) = Inr v" by simp
  qed
  have tab: "map decimal_value (ustr ''0123456789'') =
      [Some 0, Some 1, Some 2, Some 3, Some 4, Some 5, Some 6, Some 7, Some 8, Some 9]"
    by (simp add: ustr_def decimal_value_def nd_starts_def)
  have e1: "parse_decimal_signed (Some (ustr [])) = Inl Empty_input_value"
    by (simp add: eval_defs)
  have e2: "parse_decimal_signed (Some (ustr ''  '')) = Inl Empty_input_value"
    by (simp add: eval_defs)
  have e3: "parse_decimal_signed (Some (ustr ''12a'')) = Inl (Invalid_decimal_integer (ustr ''12a''))"
    by (simp add: eval_defs)
  have e4: "parse_decimal_signed (Some (ustr ''1.5'')) = Inl (Invalid_decimal_integer (ustr ''1.5''))"
    by (simp add: eval_defs)
  have e5: "parse_decimal_signed (Some (ustr ''++3'')) = Inl (Invalid_decimal_integer (ustr ''++3''))"
    by (simp add: eval_defs)
  have e6: "parse_decimal_signed (Some (ustr ''0x10'')) = Inl (Invalid_decimal_integer (ustr ''0x10''))"
    by (simp add: eval_defs)
  have e7: "parse_decimal_signed (Some (ustr ''0'')) = Inr 0" by (simp add: eval_defs)
  have e8: "parse_decimal_signed (Some (ustr ''-0'')) = Inr 0" by (simp add: eval_defs)
  have e9: "parse_decimal_signed (Some (ustr ''+7'')) = Inr 7" by (simp add: eval_defs)
  have e10: "parse_decimal_signed (Some (ustr ''-2147483648'')) = Inr (- 2147483648)"
    by (simp add: eval_defs)
  from long have long': "py_strip s = sg @ ds \<and> sg \<in> {[], [43], [45]} \<and> ds \<noteq> []
          \<and> (\<forall>c\<in>set ds. is_digit c) \<and> length ds > 4300 \<longrightarrow>
        parse_decimal_signed (Some s) = Inl (Int_ValueError (Exceeds_max_str_digits (length ds)))"
    by blast
  from rej have rej': "\<not> (\<exists>sg ds. py_strip s = sg @ ds \<and> sg \<in> {[], [43], [45]} \<and> ds \<noteq> []
          \<and> (\<forall>c\<in>set ds. is_digit c)) \<longrightarrow>
        parse_decimal_signed (Some s) =
          Inl (if py_strip s = [] then Empty_input_value
               else Invalid_decimal_integer (py_strip s))"
    by blast
  show ?thesis
    unfolding u
    using iff long' rej' tab e1 e2 e3 e4 e5 e6 e7 e8 e9 e10
    by (intro conjI)
qed

theorem parse_decimal_signed_language_witness:
  "parse_decimal_signed (Some (ustr '' +42 '')) = Inr 42
   \<and> (\<exists>sg ds. py_strip (ustr '' +42 '') = sg @ ds \<and> sg \<in> {[], ustr ''+'', ustr ''-''}
          \<and> ds \<noteq> [] \<and> (\<forall>c\<in>set ds. is_digit c) \<and> length ds \<le> 4300
          \<and> 42 = (if sg = ustr ''-'' then - int (dec_val ds) else int (dec_val ds)))"
proof -
  have e: "parse_decimal_signed (Some (ustr '' +42 '')) = Inr 42" by (simp add: eval_defs)
  from parse_decimal_signed_language [of "ustr '' +42 ''" 42, THEN conjunct1] e
  show ?thesis by blast
qed




text \<open>
  C8. A call of \<open>convert\<close> on a text that parses, with one of the three selectors,
  returns a result, and every result comes from such a call: its \<open>x_input\<close> is the
  value the text parses to, \<open>x_sat\<close> that value clamped, \<open>bin32\<close> the 32 character
  encoding of \<open>x_sat\<close>. Its \<open>value_out\<close> is the decimal text of \<open>x_sat\<close> for \<open>DEC\<close> (a
  text that parses back to \<open>x_sat\<close>), \<open>bin32\<close> for \<open>BIN\<close> and \<open>hex8\<close> for \<open>HEX\<close>. \<open>hex8\<close>
  is 8 upper case hexadecimal digits whose value is the bit pattern read as an
  unsigned number, preceded by \<open>0x\<close> exactly when the prefix option is set.
\<close>

theorem convert_value_out:
  "(parse_decimal_signed x = Inr v \<and> fmt \<in> {''DEC'', ''BIN'', ''HEX''} \<longrightarrow>
      (\<exists>r. convert x fmt p = Inr r))
   \<and> (convert x fmt p = Inr r \<longrightarrow>
        parse_decimal_signed x = Inr (x_input r)
        \<and> x_sat r = fst (saturate_int32 (x_input r))
        \<and> bin32 r = int32_to_bin32 (x_sat r)
        \<and> length (bin32 r) = 32
        \<and> set (bin32 r) \<subseteq> {CHR ''0'', CHR ''1''}
        \<and> py_int_base2 (bin32 r) = (if 0 \<le> x_sat r then x_sat r else x_sat r + 2 ^ 32)
        \<and> (fmt = ''DEC'' \<or> fmt = ''BIN'' \<or> fmt = ''HEX'')
        \<and> (fmt = ''DEC'' \<longrightarrow>
             value_out r = py_str (x_sat r)
             \<and> parse_decimal_signed (Some (ustr (value_out r))) = Inr (x_sat r))
        \<and> (fmt = ''BIN'' \<longrightarrow> value_out r = bin32 r)
        \<and> (fmt = ''HEX'' \<longrightarrow> value_out r = hex8 r)
        \<and> (\<exists>h. hex8 r = (if p then ''0x'' @ h else h) \<and> length h = 8
               \<and> set h \<subseteq> set ''0123456789ABCDEF''
               \<and> int (hex_val h) = py_int_base2 (bin32 r)))"
proof -
  have total: "\<exists>r. convert x fmt p = Inr r"
    if "parse_decimal_signed x = Inr v \<and> fmt \<in> {''DEC'', ''BIN'', ''HEX''}"
    using that by (simp add: convert_unfold)
  have fields: "parse_decimal_signed x = Inr (x_input r)
        \<and> x_sat r = fst (saturate_int32 (x_input r))
        \<and> bin32 r = int32_to_bin32 (x_sat r)
        \<and> length (bin32 r) = 32
        \<and> set (bin32 r) \<subseteq> {CHR ''0'', CHR ''1''}
        \<and> py_int_base2 (bin32 r) = (if 0 \<le> x_sat r then x_sat r else x_sat r + 2 ^ 32)
        \<and> (fmt = ''DEC'' \<or> fmt = ''BIN'' \<or> fmt = ''HEX'')
        \<and> (fmt = ''DEC'' \<longrightarrow>
             value_out r = py_str (x_sat r)
             \<and> parse_decimal_signed (Some (ustr (value_out r))) = Inr (x_sat r))
        \<and> (fmt = ''BIN'' \<longrightarrow> value_out r = bin32 r)
        \<and> (fmt = ''HEX'' \<longrightarrow> value_out r = hex8 r)
        \<and> (\<exists>h. hex8 r = (if p then ''0x'' @ h else h) \<and> length h = 8
               \<and> set h \<subseteq> set ''0123456789ABCDEF''
               \<and> int (hex_val h) = py_int_base2 (bin32 r))"
    if a: "convert x fmt p = Inr r"
  proof -
    from convert_Inr_fields [OF a] have
      pv: "parse_decimal_signed x = Inr (x_input r)"
      and xs: "x_sat r = fst (saturate_int32 (x_input r))"
      and b: "bin32 r = int32_to_bin32 (x_sat r)"
      and h: "bin32_to_hex8 (bin32 r) p = Inr (hex8 r)"
      and f: "fmt = ''DEC'' \<and> value_out r = py_str (x_sat r)
         \<or> fmt = ''BIN'' \<and> value_out r = bin32 r
         \<or> fmt = ''HEX'' \<and> value_out r = hex8 r"
      by auto
    have rg: "MIN_INT32 \<le> x_sat r" "x_sat r \<le> MAX_INT32"
      unfolding xs using saturate_int32_range [of "x_input r"] by simp_all
    have wf: "length (bin32 r) = 32" "set (bin32 r) \<subseteq> {CHR ''0'', CHR ''1''}"
      "py_int_base2 (bin32 r) = (if 0 \<le> x_sat r then x_sat r else x_sat r + 2 ^ 32)"
      unfolding b by (rule int32_to_bin32_wf [OF rg])+
    have 1: "fmt = ''DEC'' \<or> fmt = ''BIN'' \<or> fmt = ''HEX''" using f by blast
    have 2: "fmt = ''DEC'' \<longrightarrow>
        value_out r = py_str (x_sat r)
        \<and> parse_decimal_signed (Some (ustr (value_out r))) = Inr (x_sat r)"
      using f parse_py_str [OF rg] by auto
    have 3: "fmt = ''BIN'' \<longrightarrow> value_out r = bin32 r" using f by auto
    have 4: "fmt = ''HEX'' \<longrightarrow> value_out r = hex8 r" using f by auto
    let ?u = "py_int_base2 (bin32 r)"
    have u: "0 \<le> ?u" "?u < 2 ^ 32"
      using py_int_base2_nonneg [of "bin32 r"] py_int_base2_less [of "bin32 r"] wf(1)
      by simp_all
    from h have "hex8 r = (if p then ''0x'' @ format_08X ?u else format_08X ?u)"
      by (auto simp: bin32_to_hex8_wf [OF wf(1,2)])
    with format_08X_wf [OF u]
    have 5: "\<exists>h. hex8 r = (if p then ''0x'' @ h else h) \<and> length h = 8
        \<and> set h \<subseteq> set ''0123456789ABCDEF'' \<and> int (hex_val h) = py_int_base2 (bin32 r)"
      by blast
    from pv xs b wf 1 2 3 4 5 show ?thesis by (intro conjI)
  qed
  from total fields show ?thesis by blast
qed

theorem convert_value_out_witness:
  "convert (Some (ustr ''-123'')) ''HEX'' True =
     Inr \<lparr>value_out = ''0xFFFFFF85'', overflow = 0, saturated = 0, x_input = - 123,
          x_sat = - 123, bin32 = ''11111111111111111111111110000101'',
          hex8 = ''0xFFFFFF85''\<rparr>
   \<and> parse_decimal_signed (Some (ustr ''-123'')) = Inr (- 123)
   \<and> (\<exists>h. ''0xFFFFFF85'' = ''0x'' @ h \<and> length h = 8
          \<and> int (hex_val h) = py_int_base2 ''11111111111111111111111110000101'')
   \<and> (\<exists>r. convert (Some (ustr ''-123'')) ''DEC'' False = Inr r)"
proof -
  have e: "parse_decimal_signed (Some (ustr ''-123'')) = Inr (- 123)" by (simp add: eval_defs)
  note c = convert_minus_123
  from convert_value_out [of "Some (ustr ''-123'')" "- 123" "''DEC''" False, THEN conjunct1] e
  have 1: "\<exists>r. convert (Some (ustr ''-123'')) ''DEC'' False = Inr r" by simp
  from convert_value_out [of "Some (ustr ''-123'')" 0 "''HEX''" True, THEN conjunct2,
      rule_format, OF c]
  have 2: "parse_decimal_signed (Some (ustr ''-123'')) = Inr (- 123)
      \<and> (\<exists>h. ''0xFFFFFF85'' = ''0x'' @ h \<and> length h = 8
          \<and> int (hex_val h) = py_int_base2 ''11111111111111111111111110000101'')"
    by simp
  from c 1 2 show ?thesis by blast
qed

end
